theory Spec2Isabelle
  imports Main "HOL-Library.Word"
begin

unbundle bit_operations_syntax

section \<open>The one-wire split protocol of ZMK\<close>

text \<open>
  A shallow embedding of \<^verbatim>\<open>app/src/split/onewire/onewire_peripheral.c\<close> (the
  transmitter) and of its companion file holding \<^verbatim>\<open>onewire_cb\<close> (the receiver).
  Both files declare the same globals: the 16-byte array \<^verbatim>\<open>position_state\<close> and the
  device \<^verbatim>\<open>onewire_dev\<close>. Every call into Zephyr (GPIO, busy wait, logging, event
  raising) is recorded, in program order, in a trace.
\<close>

type_synonym u8 = "8 word"

subsection \<open>Constants and macros\<close>

definition ONE_PERIOD_US :: nat where
  "ONE_PERIOD_US = 50"

text \<open>
  \<^verbatim>\<open>#define HALF_PERIOD_US (ONE_PERIOD_US / 2)\<close>: a division of C integers. The period
  is taken as an argument to say what the macro computes for other settings of
  \<^verbatim>\<open>ONE_PERIOD_US\<close>; durations are non-negative microsecond counts.
\<close>

definition half_period_of :: "nat \<Rightarrow> nat" where
  "half_period_of one_period = one_period div 2"

definition HALF_PERIOD_US :: nat where
  "HALF_PERIOD_US = half_period_of ONE_PERIOD_US"

text \<open>The argument of the first \<^verbatim>\<open>k_busy_wait\<close> of \<^verbatim>\<open>onewire_cb\<close>:
  \<^verbatim>\<open>ONE_PERIOD_US + HALF_PERIOD_US\<close>.\<close>

definition sample_offset_of :: "nat \<Rightarrow> nat" where
  "sample_offset_of one_period = one_period + half_period_of one_period"

definition sample_offset :: nat where
  "sample_offset = ONE_PERIOD_US + HALF_PERIOD_US"

definition FRAMING_SYMBOL :: u8 where
  "FRAMING_SYMBOL = 0x55"

definition POSITION_STATE_DATA_LEN :: nat where
  "POSITION_STATE_DATA_LEN = 16"

text \<open>
  \<^verbatim>\<open>sizeof(byte)\<close> for \<^verbatim>\<open>u8_t byte\<close>: the size of the variable in bytes, which is 1.
  It is the bound of the loops of \<^verbatim>\<open>onewire_send_byte\<close> and \<^verbatim>\<open>onewire_read_byte\<close>.
\<close>

definition sizeof_byte :: nat where
  "sizeof_byte = 1"

text \<open>
  Zephyr's \<^verbatim>\<open>BIT(n)\<close> is \<^verbatim>\<open>(1UL << n)\<close> and \<^verbatim>\<open>WRITE_BIT(var, bit, set)\<close> is
  \<^verbatim>\<open>((var) = (set) ? ((var) | BIT(bit)) : ((var) & ~BIT(bit)))\<close>. They are only used
  with bit numbers below 8 on \<^verbatim>\<open>u8_t\<close> operands, so they are kept at 8 bits.
\<close>

definition BIT :: "nat \<Rightarrow> u8" where
  "BIT n = push_bit n 1"

definition WRITE_BIT :: "u8 \<Rightarrow> nat \<Rightarrow> bool \<Rightarrow> u8" where
  "WRITE_BIT var b val = (if val then var OR BIT b else var AND NOT (BIT b))"

subsection \<open>Platform calls and program state\<close>

datatype irq_flags = GPIO_INT_DISABLE | GPIO_INT_EDGE_TO_INACTIVE

text \<open>The event \<^verbatim>\<open>struct position_state_changed\<close> filled in by \<^verbatim>\<open>onewire_cb\<close>.\<close>

record position_state_changed =
  position :: nat
  state :: bool
  timestamp :: int

datatype action =
    Pin_set u8                          \<comment> \<open>\<^verbatim>\<open>gpio_pin_set(dev, pin, value)\<close>\<close>
  | Pin_get int                         \<comment> \<open>\<^verbatim>\<open>gpio_pin_get(dev, pin)\<close> and its result\<close>
  | Busy_wait nat                       \<comment> \<open>\<^verbatim>\<open>k_busy_wait(usec)\<close>\<close>
  | Irq_configure irq_flags             \<comment> \<open>\<^verbatim>\<open>gpio_pin_interrupt_configure\<close>\<close>
  | Log_pin_read_error int              \<comment> \<open>"Pin read error: %d"\<close>
  | Log_length_too_long u8              \<comment> \<open>"Error, data length was too long: %d"\<close>
  | Log_trigger nat                     \<comment> \<open>"Trigger key position state change for %d"\<close>
  | Event_raise position_state_changed  \<comment> \<open>\<^verbatim>\<open>ZMK_EVENT_RAISE(pos_ev)\<close>\<close>

text \<open>
  What the environment answers: the result of the \<open>n\<close>-th call of
  \<^verbatim>\<open>gpio_pin_get\<close> (a C \<^verbatim>\<open>int\<close>: the level 0 or 1, or a negative error number) and
  the clock value \<^verbatim>\<open>k_uptime_get()\<close> returns after \<open>n\<close> platform calls.
\<close>

record platform =
  gpio_pin_get :: "nat \<Rightarrow> int"
  k_uptime_get :: "nat \<Rightarrow> int"

text \<open>
  The globals of either file and the bookkeeping of the model. \<open>position_state\<close>
  is the array \<^verbatim>\<open>u8_t position_state[POSITION_STATE_DATA_LEN]\<close>; \<open>reads\<close> counts the
  calls of \<^verbatim>\<open>gpio_pin_get\<close>; \<open>int_mode\<close> is the interrupt configuration of the pin;
  \<open>out_of_bounds\<close> is set when a store is made past the end of \<open>position_state\<close>,
  which C leaves undefined and the code does not guard.
\<close>

record onewire =
  position_state :: "u8 list"
  trace :: "action list"
  reads :: nat
  int_mode :: irq_flags
  out_of_bounds :: bool

definition emit :: "action \<Rightarrow> onewire \<Rightarrow> onewire" where
  "emit a st = st\<lparr>trace := trace st @ [a]\<rparr>"

definition k_busy_wait :: "nat \<Rightarrow> onewire \<Rightarrow> onewire" where
  "k_busy_wait usec st = emit (Busy_wait usec) st"

definition gpio_pin_interrupt_configure :: "irq_flags \<Rightarrow> onewire \<Rightarrow> onewire" where
  "gpio_pin_interrupt_configure flags st = emit (Irq_configure flags) (st\<lparr>int_mode := flags\<rparr>)"

subsection \<open>Peripheral: the transmitter\<close>

text \<open>
  \<^verbatim>\<open>onewire_send_byte\<close>: the loop body sets the pin to \<^verbatim>\<open>byte & 0x01\<close>, shifts the
  byte right by one and waits one period. The loop runs while \<^verbatim>\<open>i < sizeof(byte)\<close>.
  The functions of the transmitter return the platform calls they make.
\<close>

fun send_bits :: "nat \<Rightarrow> u8 \<Rightarrow> action list" where
  "send_bits 0 byte = []"
| "send_bits (Suc n) byte =
     Pin_set (byte AND 0x01) # Busy_wait ONE_PERIOD_US # send_bits n (drop_bit 1 byte)"

definition onewire_send_byte :: "u8 \<Rightarrow> action list" where
  "onewire_send_byte byte = send_bits sizeof_byte byte"

definition onewire_start_transmission :: "u8 \<Rightarrow> action list" where
  "onewire_start_transmission len = onewire_send_byte FRAMING_SYMBOL @ onewire_send_byte len"

text \<open>\<^verbatim>\<open>onewire_end_transmission\<close> sets the pin to 1. The source names the pin
  \<^verbatim>\<open>onewire_port, onewire_pin\<close> here, identifiers declared nowhere; they are read as
  the one line of the device.\<close>

definition onewire_end_transmission :: "action list" where
  "onewire_end_transmission = [Pin_set 1]"

text \<open>\<^verbatim>\<open>send_onewire_data\<close>: the start of the transmission, \<^verbatim>\<open>data[i]\<close> for each \<open>i\<close> below
  \<^verbatim>\<open>length\<close>, the end of the transmission. Its only callers pass the 16 bytes of
  \<^verbatim>\<open>position_state\<close> and the length 16.\<close>

definition send_onewire_data :: "u8 list \<Rightarrow> u8 \<Rightarrow> action list" where
  "send_onewire_data data len =
     onewire_start_transmission len
     @ concat (map (\<lambda>i. onewire_send_byte (data ! i)) [0..<unat len])
     @ onewire_end_transmission"

text \<open>
  \<^verbatim>\<open>WRITE_BIT(position_state[position/8], position % 8, set)\<close>. There is no range
  check in the source: for \<^verbatim>\<open>position/8\<close> of 16 or more the store lands outside the
  array. C leaves what happens then undefined, so the model only records the store in
  \<open>out_of_bounds\<close>; once that is set the rest of the state says nothing about the
  program.
\<close>

definition write_position :: "u8 \<Rightarrow> bool \<Rightarrow> onewire \<Rightarrow> onewire" where
  "write_position pos val st =
     (let idx = unat pos div 8 in
      if idx < POSITION_STATE_DATA_LEN
      then st\<lparr>position_state :=
                (position_state st)[idx := WRITE_BIT (position_state st ! idx) (unat pos mod 8) val]\<rparr>
      else st\<lparr>out_of_bounds := True\<rparr>)"

text \<open>\<^verbatim>\<open>sizeof(position_state)\<close> is 16. Neither function has a \<^verbatim>\<open>return\<close> statement,
  so the model returns the state only.\<close>

definition zmk_split_onewire_position_pressed :: "u8 \<Rightarrow> onewire \<Rightarrow> onewire" where
  "zmk_split_onewire_position_pressed pos st =
     (let st1 = write_position pos True st
      in st1\<lparr>trace := trace st1 @ send_onewire_data (position_state st1) 16\<rparr>)"

definition zmk_split_onewire_position_released :: "u8 \<Rightarrow> onewire \<Rightarrow> onewire" where
  "zmk_split_onewire_position_released pos st =
     (let st1 = write_position pos False st
      in st1\<lparr>trace := trace st1 @ send_onewire_data (position_state st1) 16\<rparr>)"

subsection \<open>Central: the receiver\<close>

text \<open>
  One iteration of the loop of \<^verbatim>\<open>onewire_read_byte\<close>: sample the pin; a non-negative
  sample is shifted left by \<open>i\<close> and or-ed into the byte (the assignment to a
  \<^verbatim>\<open>u8_t\<close> keeps the low 8 bits), a negative one is logged; then wait one period.
\<close>

definition read_bit :: "platform \<Rightarrow> nat \<Rightarrow> u8 \<times> onewire \<Rightarrow> u8 \<times> onewire" where
  "read_bit pf i = (\<lambda>(byte, st).
     let pin_value = gpio_pin_get pf (reads st);
         st1 = emit (Pin_get pin_value) (st\<lparr>reads := Suc (reads st)\<rparr>)
     in if 0 \<le> pin_value
        then (byte OR word_of_int (push_bit i pin_value), k_busy_wait ONE_PERIOD_US st1)
        else (byte, k_busy_wait ONE_PERIOD_US (emit (Log_pin_read_error pin_value) st1)))"

definition read_bits :: "platform \<Rightarrow> nat \<Rightarrow> onewire \<Rightarrow> u8 \<times> onewire" where
  "read_bits pf n st = fold (read_bit pf) [0..<n] (0, st)"

definition onewire_read_byte :: "platform \<Rightarrow> onewire \<Rightarrow> u8 \<times> onewire" where
  "onewire_read_byte pf st = read_bits pf sizeof_byte st"

text \<open>\<^verbatim>\<open>position_state[i] = onewire_read_byte();\<close>\<close>

definition receive_byte :: "platform \<Rightarrow> nat \<Rightarrow> onewire \<Rightarrow> onewire" where
  "receive_byte pf i st =
     (let (b, st1) = onewire_read_byte pf st
      in st1\<lparr>position_state := (position_state st1)[i := b]\<rparr>)"

text \<open>
  The first part of \<^verbatim>\<open>onewire_cb\<close>: disable the interrupt, wait, read one byte into
  \<^verbatim>\<open>data_length\<close>, and either read \<^verbatim>\<open>data_length\<close> bytes into \<^verbatim>\<open>position_state\<close> or
  log that the length is too long. The result is \<^verbatim>\<open>data_length\<close> and the state.
\<close>

definition cb_receive :: "platform \<Rightarrow> onewire \<Rightarrow> u8 \<times> onewire" where
  "cb_receive pf st =
     (let st1 = gpio_pin_interrupt_configure GPIO_INT_DISABLE st;
          st2 = k_busy_wait (ONE_PERIOD_US + HALF_PERIOD_US) st1;
          (data_length, st3) = onewire_read_byte pf st2
      in if unat data_length < POSITION_STATE_DATA_LEN
         then (data_length, fold (receive_byte pf) [0..<unat data_length] st3)
         else (data_length, emit (Log_length_too_long data_length) st3))"

text \<open>
  The second part, the diff: \<^verbatim>\<open>changed_positions[i] = data[i] ^ position_state[i];
  position_state[i] = data[i];\<close> for the 16 indices. \<^verbatim>\<open>data\<close> is used by
  \<^verbatim>\<open>onewire_cb\<close> without a declaration, so it is an argument here: the 16 bytes the
  pointer refers to. \<^verbatim>\<open>changed_positions\<close> is a local array, written at each index
  before it is read.
\<close>

definition diff_byte :: "u8 list \<Rightarrow> nat \<Rightarrow> u8 list \<times> u8 list \<Rightarrow> u8 list \<times> u8 list" where
  "diff_byte data i = (\<lambda>(changed_positions, ps).
     (changed_positions[i := (data ! i) XOR (ps ! i)], ps[i := data ! i]))"

definition diff_positions :: "u8 list \<Rightarrow> u8 list \<Rightarrow> u8 list \<times> u8 list" where
  "diff_positions data ps =
     fold (diff_byte data) [0..<POSITION_STATE_DATA_LEN] (replicate POSITION_STATE_DATA_LEN 0, ps)"

text \<open>
  The third part, the two nested loops that raise one event for each set bit of
  \<^verbatim>\<open>changed_positions\<close>, with the position \<^verbatim>\<open>(i * 8) + j\<close>, the state
  \<^verbatim>\<open>position_state[i] & BIT(j)\<close> as a \<^verbatim>\<open>bool\<close> and the clock as the timestamp. The
  event is logged, then raised.
\<close>

definition raise_bit :: "platform \<Rightarrow> u8 list \<Rightarrow> nat \<Rightarrow> nat \<Rightarrow> onewire \<Rightarrow> onewire" where
  "raise_bit pf changed_positions i j st =
     (if changed_positions ! i AND BIT j \<noteq> 0
      then let pos_ev = \<lparr>position = (i * 8) + j,
                         state = (position_state st ! i AND BIT j \<noteq> 0),
                         timestamp = k_uptime_get pf (length (trace st))\<rparr>
           in emit (Event_raise pos_ev) (emit (Log_trigger (position pos_ev)) st)
      else st)"

definition raise_events :: "platform \<Rightarrow> u8 list \<Rightarrow> onewire \<Rightarrow> onewire" where
  "raise_events pf changed_positions st =
     fold (\<lambda>i. fold (raise_bit pf changed_positions i) [0..<8]) [0..<POSITION_STATE_DATA_LEN] st"

text \<open>The diff and the events together: the part of \<^verbatim>\<open>onewire_cb\<close> after the frame
  has been read.\<close>

definition cb_diff :: "platform \<Rightarrow> u8 list \<Rightarrow> onewire \<Rightarrow> onewire" where
  "cb_diff pf data st =
     (let (changed_positions, ps) = diff_positions data (position_state st)
      in raise_events pf changed_positions (st\<lparr>position_state := ps\<rparr>))"

definition onewire_cb :: "platform \<Rightarrow> u8 list \<Rightarrow> onewire \<Rightarrow> onewire" where
  "onewire_cb pf data st =
     gpio_pin_interrupt_configure GPIO_INT_EDGE_TO_INACTIVE
       (cb_diff pf data (snd (cb_receive pf st)))"

subsection \<open>Reading the model\<close>

text \<open>The events raised in a trace, in order, and the bit of a bitmap at a position
  (byte \<open>q div 8\<close>, bit \<open>q mod 8\<close>).\<close>

fun raised :: "action list \<Rightarrow> position_state_changed list" where
  "raised [] = []"
| "raised (Event_raise e # as) = e # raised as"
| "raised (_ # as) = raised as"

definition bit_at :: "u8 list \<Rightarrow> nat \<Rightarrow> bool" where
  "bit_at ps q = bit (ps ! (q div 8)) (q mod 8)"

text \<open>
  The line between the two boards: the transmitter holds each level it sets for one
  period and the receiver samples once per period, so the \<open>n\<close>-th sample is the
  \<open>n\<close>-th level set. Once the transmitter is done the line idles high.
\<close>

fun levels :: "action list \<Rightarrow> int list" where
  "levels [] = []"
| "levels (Pin_set v # as) = (if v = 0 then 0 else 1) # levels as"
| "levels (_ # as) = levels as"

definition line_of :: "action list \<Rightarrow> platform" where
  "line_of as = \<lparr>gpio_pin_get = (\<lambda>n. if n < length (levels as) then levels as ! n else 1),
                 k_uptime_get = (\<lambda>n. 0)\<rparr>"

definition boot :: onewire where
  "boot = \<lparr>position_state = replicate POSITION_STATE_DATA_LEN 0, trace = [], reads = 0,
           int_mode = GPIO_INT_EDGE_TO_INACTIVE, out_of_bounds = False\<rparr>"

text \<open>The interrupt configurations made in a trace, in order, and the byte one call of
  \<^verbatim>\<open>onewire_read_byte\<close> decodes when \<open>k\<close> samples have been taken before it.\<close>

fun irqs :: "action list \<Rightarrow> irq_flags list" where
  "irqs [] = []"
| "irqs (Irq_configure f # as) = f # irqs as"
| "irqs (_ # as) = irqs as"

definition byte_at :: "platform \<Rightarrow> nat \<Rightarrow> u8" where
  "byte_at pf k = fst (onewire_read_byte pf (boot\<lparr>reads := k\<rparr>))"

text \<open>The state of \<^verbatim>\<open>onewire_cb\<close> once it has disabled the interrupt and waited.\<close>

definition cb_delayed :: "onewire \<Rightarrow> onewire" where
  "cb_delayed st = k_busy_wait (ONE_PERIOD_US + HALF_PERIOD_US)
                     (gpio_pin_interrupt_configure GPIO_INT_DISABLE st)"

text \<open>The platform calls made for a list of events: each is logged, then raised.\<close>

definition raise_actions :: "position_state_changed list \<Rightarrow> action list" where
  "raise_actions es = concat (map (\<lambda>e. [Log_trigger (position e), Event_raise e]) es)"

text \<open>
  Two relations between a state and a later one. \<open>raises st st' ks\<close>: all that
  happened in between is that events were raised, with the positions and states
  \<open>ks\<close>. \<open>quiet st st'\<close>: the trace was extended, by no interrupt configuration, and
  the interrupt mode is as it was.
\<close>

definition key :: "position_state_changed \<Rightarrow> nat \<times> bool" where
  "key e = (position e, state e)"

definition raises :: "onewire \<Rightarrow> onewire \<Rightarrow> (nat \<times> bool) list \<Rightarrow> bool" where
  "raises st st' ks \<longleftrightarrow>
     position_state st' = position_state st \<and> reads st' = reads st
     \<and> int_mode st' = int_mode st \<and> out_of_bounds st' = out_of_bounds st
     \<and> take (length (trace st)) (trace st') = trace st
     \<and> drop (length (trace st)) (trace st')
         = raise_actions (raised (drop (length (trace st)) (trace st')))
     \<and> map key (raised (drop (length (trace st)) (trace st'))) = ks"

definition quiet :: "onewire \<Rightarrow> onewire \<Rightarrow> bool" where
  "quiet st st' \<longleftrightarrow>
     int_mode st' = int_mode st
     \<and> take (length (trace st)) (trace st') = trace st
     \<and> irqs (drop (length (trace st)) (trace st')) = []"

text \<open>The positions and states of the events the inner loop of \<^verbatim>\<open>onewire_cb\<close> raises
  for byte \<open>i\<close>, over the bit numbers \<open>js\<close>.\<close>

definition bit_keys :: "u8 list \<Rightarrow> u8 list \<Rightarrow> nat \<Rightarrow> nat list \<Rightarrow> (nat \<times> bool) list" where
  "bit_keys c ps i js =
     concat (map (\<lambda>j. if c ! i AND BIT j \<noteq> 0
                       then [((i * 8) + j, ps ! i AND BIT j \<noteq> 0)] else []) js)"



section \<open>Timing\<close>

text \<open>
  Claim C8, as stated, says the sampling delay is exactly one and a half bit periods
  for every period. The macro divides integers, so for an odd period the delay is half
  a microsecond short: at a period of 51 the delay is 76, and twice 76 is not three
  times 51.
\<close>

theorem sample_offset_odd_period: "2 * sample_offset_of 51 \<noteq> 3 * 51"
  by (simp add: sample_offset_of_def half_period_of_def)

text \<open>
  Claim C8, amended: the delay is the period plus the period halved with truncation;
  twice the delay falls short of three periods by the parity of the period (so the
  delay is exactly one and a half periods for even periods), and for the period of
  the source, 50, it is 75.
\<close>

theorem sample_offset_truncates:
  "2 * sample_offset_of p + p mod 2 = 3 * p
   \<and> sample_offset_of p = p + p div 2
   \<and> sample_offset = sample_offset_of ONE_PERIOD_US
   \<and> sample_offset = 75"
  by (simp add: sample_offset_of_def half_period_of_def sample_offset_def HALF_PERIOD_US_def
      ONE_PERIOD_US_def)

section \<open>The transmitter\<close>

lemma bit_BIT: "bit (BIT b) n \<longleftrightarrow> n = b \<and> b < 8"
  by (auto simp: BIT_def bit_simps)

lemma bit_WRITE_BIT:
  "b < 8 \<Longrightarrow> bit (WRITE_BIT var b val) n \<longleftrightarrow> (if n = b then val else bit var n)"
  by (auto simp: WRITE_BIT_def bit_simps bit_BIT dest: bit_imp_le_length)

lemma div_mod_8_eq: "(q::nat) div 8 = p div 8 \<and> q mod 8 = p mod 8 \<longleftrightarrow> q = p"
  by (metis div_mult_mod_eq)

lemma trace_write_position [simp]: "trace (write_position pos val st) = trace st"
  by (simp add: write_position_def Let_def)

lemma length_write_position [simp]:
  "length (position_state (write_position pos val st)) = length (position_state st)"
  by (simp add: write_position_def Let_def)

lemma write_position_in_range:
  assumes "unat pos < 128" and "length (position_state st) = 16"
  shows "position_state (write_position pos val st)
           = (position_state st)[unat pos div 8 :=
                WRITE_BIT (position_state st ! (unat pos div 8)) (unat pos mod 8) val]"
    and "out_of_bounds (write_position pos val st) = out_of_bounds st"
    and "q < 128 \<Longrightarrow> bit_at (position_state (write_position pos val st)) q
           = (if q = unat pos then val else bit_at (position_state st) q)"
proof -
  have idx: "unat pos div 8 < 16" using assms(1) by simp
  show "position_state (write_position pos val st)
           = (position_state st)[unat pos div 8 :=
                WRITE_BIT (position_state st ! (unat pos div 8)) (unat pos mod 8) val]"
    using idx by (simp add: write_position_def Let_def POSITION_STATE_DATA_LEN_def)
  show "out_of_bounds (write_position pos val st) = out_of_bounds st"
    using idx by (simp add: write_position_def Let_def POSITION_STATE_DATA_LEN_def)
  show "bit_at (position_state (write_position pos val st)) q
           = (if q = unat pos then val else bit_at (position_state st) q)" if "q < 128"
    using idx that assms(2) div_mod_8_eq[of q "unat pos"]
    by (auto simp add: write_position_def Let_def POSITION_STATE_DATA_LEN_def bit_at_def
        nth_list_update bit_WRITE_BIT)
qed

lemma unat_sizeof_position_state: "unat (16::u8) = 16"
  by simp

lemma map_nth_upt: "length xs = n \<Longrightarrow> map (\<lambda>i. f (xs ! i)) [0..<n] = map f xs"
  by (rule nth_equalityI) auto

lemma send_onewire_data_frame:
  assumes "length data = 16"
  shows "send_onewire_data data 16
           = concat (map onewire_send_byte (FRAMING_SYMBOL # 16 # data)) @ [Pin_set 1]"
proof -
  have "map (\<lambda>i. onewire_send_byte (data ! i)) [0..<unat (16::u8)] = map onewire_send_byte data"
    using assms by (simp only: unat_sizeof_position_state map_nth_upt)
  then show ?thesis
    by (simp only: send_onewire_data_def onewire_start_transmission_def
        onewire_end_transmission_def list.map concat.simps append_assoc)
qed

lemma send_onewire_data_starts_high:
  "take 2 (send_onewire_data data len) = [Pin_set 1, Busy_wait 50]"
  by (simp add: send_onewire_data_def onewire_start_transmission_def onewire_send_byte_def
      sizeof_byte_def FRAMING_SYMBOL_def ONE_PERIOD_US_def)

text \<open>
  Claim C10: for a position below 128, \<^verbatim>\<open>zmk_split_onewire_position_pressed\<close> and
  \<^verbatim>\<open>zmk_split_onewire_position_released\<close> write the byte at index \<open>position / 8\<close>,
  which is below 16, and no store leaves the array; in that byte they set, respectively
  clear, bit \<open>position % 8\<close>; every other bit of the 128 keeps its value.
\<close>

theorem position_write_in_bounds:
  assumes "unat pos < 128" and "length (position_state st) = POSITION_STATE_DATA_LEN"
  shows "unat pos div 8 < POSITION_STATE_DATA_LEN
       \<and> position_state (zmk_split_onewire_position_pressed pos st)
           = (position_state st)[unat pos div 8 :=
                position_state st ! (unat pos div 8) OR BIT (unat pos mod 8)]
       \<and> position_state (zmk_split_onewire_position_released pos st)
           = (position_state st)[unat pos div 8 :=
                position_state st ! (unat pos div 8) AND NOT (BIT (unat pos mod 8))]
       \<and> out_of_bounds (zmk_split_onewire_position_pressed pos st) = out_of_bounds st
       \<and> out_of_bounds (zmk_split_onewire_position_released pos st) = out_of_bounds st
       \<and> (\<forall>q<128. bit_at (position_state (zmk_split_onewire_position_pressed pos st)) q
             = (if q = unat pos then True else bit_at (position_state st) q))
       \<and> (\<forall>q<128. bit_at (position_state (zmk_split_onewire_position_released pos st)) q
             = (if q = unat pos then False else bit_at (position_state st) q))"
proof -
  have len: "length (position_state st) = 16"
    using assms(2) by (simp add: POSITION_STATE_DATA_LEN_def)
  have idx: "unat pos div 8 < POSITION_STATE_DATA_LEN"
    using assms(1) by (simp add: POSITION_STATE_DATA_LEN_def)
  note wp = write_position_in_range [OF assms(1) len]
  have ps: "position_state (zmk_split_onewire_position_pressed pos st)
              = position_state (write_position pos True st)"
       "position_state (zmk_split_onewire_position_released pos st)
              = position_state (write_position pos False st)"
    by (simp_all add: zmk_split_onewire_position_pressed_def
        zmk_split_onewire_position_released_def Let_def)
  have oob: "out_of_bounds (zmk_split_onewire_position_pressed pos st)
              = out_of_bounds (write_position pos True st)"
       "out_of_bounds (zmk_split_onewire_position_released pos st)
              = out_of_bounds (write_position pos False st)"
    by (simp_all add: zmk_split_onewire_position_pressed_def
        zmk_split_onewire_position_released_def Let_def)
  have bytes: "position_state (zmk_split_onewire_position_pressed pos st)
           = (position_state st)[unat pos div 8 :=
                position_state st ! (unat pos div 8) OR BIT (unat pos mod 8)]"
       "position_state (zmk_split_onewire_position_released pos st)
           = (position_state st)[unat pos div 8 :=
                position_state st ! (unat pos div 8) AND NOT (BIT (unat pos mod 8))]"
    by (simp_all only: ps wp(1) WRITE_BIT_def if_True if_False)
  have flags: "out_of_bounds (zmk_split_onewire_position_pressed pos st) = out_of_bounds st"
       "out_of_bounds (zmk_split_onewire_position_released pos st) = out_of_bounds st"
    by (simp_all only: oob wp(2))
  have bits: "\<forall>q<128. bit_at (position_state (zmk_split_onewire_position_pressed pos st)) q
             = (if q = unat pos then True else bit_at (position_state st) q)"
       "\<forall>q<128. bit_at (position_state (zmk_split_onewire_position_released pos st)) q
             = (if q = unat pos then False else bit_at (position_state st) q)"
    by (auto simp: ps wp(3))
  from idx bytes flags bits show ?thesis
    by (intro conjI)
qed

theorem position_write_in_bounds_witness:
  "unat (10::u8) < 128 \<and> length (position_state boot) = POSITION_STATE_DATA_LEN
   \<and> position_state (zmk_split_onewire_position_pressed 10 boot)
        = (position_state boot)[1 := 4]
   \<and> bit_at (position_state (zmk_split_onewire_position_pressed 10 boot)) 10
   \<and> \<not> bit_at (position_state (zmk_split_onewire_position_pressed 10 boot)) 11
   \<and> \<not> bit_at (position_state (zmk_split_onewire_position_released 10 boot)) 10"
proof -
  have h1: "unat (10::u8) < 128" by simp
  have h2: "length (position_state boot) = POSITION_STATE_DATA_LEN"
    by (simp add: boot_def)
  note T = position_write_in_bounds [OF h1 h2]
  have z: "position_state boot ! 1 = 0" "\<not> bit_at (position_state boot) 11"
    by (simp_all add: boot_def POSITION_STATE_DATA_LEN_def bit_at_def)
  have bytes: "position_state (zmk_split_onewire_position_pressed 10 boot)
        = (position_state boot)[1 := 4]"
    using T z(1) by (simp add: BIT_def)
  have p: "\<forall>q<128. bit_at (position_state (zmk_split_onewire_position_pressed 10 boot)) q
             = (if q = unat (10::u8) then True else bit_at (position_state boot) q)"
    using T by - (elim conjE, assumption)
  have r: "\<forall>q<128. bit_at (position_state (zmk_split_onewire_position_released 10 boot)) q
             = (if q = unat (10::u8) then False else bit_at (position_state boot) q)"
    using T by - (elim conjE, assumption)
  have p10: "bit_at (position_state (zmk_split_onewire_position_pressed 10 boot)) 10"
    using p [rule_format, of 10] by simp
  have p11: "\<not> bit_at (position_state (zmk_split_onewire_position_pressed 10 boot)) 11"
    using p [rule_format, of 11] z(2) by simp
  have r10: "\<not> bit_at (position_state (zmk_split_onewire_position_released 10 boot)) 10"
    using r [rule_format, of 10] by simp
  from h1 h2 bytes p10 p11 r10 show ?thesis
    by (intro conjI)
qed

lemma levels_append [simp]: "levels (as @ bs) = levels as @ levels bs"
  by (induction as rule: levels.induct) auto

text \<open>What one call of \<^verbatim>\<open>onewire_send_byte\<close> does, written out: its loop runs once.\<close>

lemma onewire_send_byte_eq:
  "onewire_send_byte b = [Pin_set (b AND 1), Busy_wait ONE_PERIOD_US]"
  by (simp add: onewire_send_byte_def sizeof_byte_def)

lemma replicate_16: "replicate 16 x = x # x # replicate 14 x"
  by (simp add: numeral_eq_Suc)

lemma pressed_10_boot:
  "position_state (zmk_split_onewire_position_pressed 10 boot) = 0 # 4 # replicate 14 0"
  by (simp add: zmk_split_onewire_position_pressed_def write_position_def Let_def boot_def
      POSITION_STATE_DATA_LEN_def WRITE_BIT_def BIT_def replicate_16)

lemma released_10_boot:
  "position_state (zmk_split_onewire_position_released 10 boot) = replicate 16 0"
  by (simp add: zmk_split_onewire_position_released_def write_position_def Let_def boot_def
      POSITION_STATE_DATA_LEN_def WRITE_BIT_def BIT_def replicate_16)

text \<open>
  Claim C5 says every call transmits a frame whose length byte has the value 16,
  followed by the 16 bytes of the bitmap. \<^verbatim>\<open>send_onewire_data\<close> does hand the start
  symbol, the length 16 and the 16 bytes in array order to \<^verbatim>\<open>onewire_send_byte\<close>, but
  each call drives one level only, the lowest bit of its byte. After pressing
  position 10 on the cleared bitmap, byte 1 of the bitmap is 4, and the line carries
  19 levels: 1 for the start symbol, 0 for the length, 0 for each of the 16 bytes, and
  the closing 1. The length 16 is driven as the length 0 would be, and the whole
  transmission is the one made after releasing position 10, when the bitmap is all
  zero: neither the value 16 nor the bitmap is on the line.
\<close>

theorem frame_carries_low_bits_only:
  "position_state (zmk_split_onewire_position_pressed 10 boot) = 0 # 4 # replicate 14 0
   \<and> position_state (zmk_split_onewire_position_released 10 boot) = replicate 16 0
   \<and> levels (trace (zmk_split_onewire_position_pressed 10 boot)) = 1 # 0 # replicate 16 0 @ [1]
   \<and> trace (zmk_split_onewire_position_pressed 10 boot)
       = trace (zmk_split_onewire_position_released 10 boot)
   \<and> onewire_send_byte 16 = onewire_send_byte 0"
proof -
  have t: "trace boot = []" by (simp add: boot_def)
  have p: "trace (zmk_split_onewire_position_pressed 10 boot)
             = send_onewire_data (0 # 4 # replicate 14 0) 16"
    using pressed_10_boot
    by (simp add: zmk_split_onewire_position_pressed_def Let_def t)
  have r: "trace (zmk_split_onewire_position_released 10 boot)
             = send_onewire_data (0 # 0 # replicate 14 0) 16"
    using released_10_boot
    by (simp add: zmk_split_onewire_position_released_def Let_def t replicate_16)
  have f1: "send_onewire_data (0 # 4 # replicate 14 0) 16
     = concat (map onewire_send_byte (FRAMING_SYMBOL # 16 # 0 # 4 # replicate 14 0)) @ [Pin_set 1]"
    by (rule send_onewire_data_frame) simp
  have f2: "send_onewire_data (0 # 0 # replicate 14 0) 16
     = concat (map onewire_send_byte (FRAMING_SYMBOL # 16 # 0 # 0 # replicate 14 0)) @ [Pin_set 1]"
    by (rule send_onewire_data_frame) simp
  have b4: "onewire_send_byte 4 = onewire_send_byte 0"
    by (simp add: onewire_send_byte_eq)
  have b16: "onewire_send_byte 16 = onewire_send_byte 0"
    by (simp add: onewire_send_byte_eq)
  have eq: "trace (zmk_split_onewire_position_pressed 10 boot)
       = trace (zmk_split_onewire_position_released 10 boot)"
    by (simp only: p r f1 f2) (simp add: b4)
  have lz: "levels (concat (replicate n [Pin_set 0, Busy_wait ONE_PERIOD_US])) = replicate n 0"
    for n
    by (induction n) simp_all
  have lv: "levels (trace (zmk_split_onewire_position_pressed 10 boot))
              = 1 # 0 # replicate 16 0 @ [1]"
    by (simp only: eq r f2) (simp add: onewire_send_byte_eq FRAMING_SYMBOL_def lz replicate_16)
  from pressed_10_boot released_10_boot lv eq b16 show ?thesis by (intro conjI)
qed

text \<open>
  Claim C4 says a position of 128 or more is rejected with no effect. The code has no
  range check: at position 200 both functions apply \<^verbatim>\<open>WRITE_BIT\<close> to
  \<^verbatim>\<open>position_state[25]\<close>, past the end of the 16-byte array. Nothing is rejected, and
  what the store overwrites is outside the array.
\<close>

theorem position_200_stores_out_of_bounds:
  "unat (200::u8) div 8 = 25
   \<and> \<not> out_of_bounds boot
   \<and> out_of_bounds (zmk_split_onewire_position_pressed 200 boot)
   \<and> out_of_bounds (zmk_split_onewire_position_released 200 boot)"
  by (simp add: boot_def zmk_split_onewire_position_pressed_def
      zmk_split_onewire_position_released_def Let_def write_position_def
      POSITION_STATE_DATA_LEN_def)

text \<open>
  Claim C7 says every transmission begins with the line held low for one period. The
  code has no start bit: the first thing a transmission does is set the line to the
  low bit of the start symbol 0x55, which is 1, and hold it for one period.
\<close>

theorem transmission_starts_high:
  "take 2 (trace (zmk_split_onewire_position_pressed 0 boot)) = [Pin_set 1, Busy_wait 50]"
  by (simp add: boot_def zmk_split_onewire_position_pressed_def Let_def
      send_onewire_data_starts_high)

section \<open>The receiver\<close>

subsection \<open>Traces\<close>

lemma irqs_append [simp]: "irqs (as @ bs) = irqs as @ irqs bs"
  by (induction as rule: irqs.induct) auto

lemma raised_append [simp]: "raised (as @ bs) = raised as @ raised bs"
  by (induction as rule: raised.induct) auto

lemma raise_actions_append [simp]:
  "raise_actions (es @ es') = raise_actions es @ raise_actions es'"
  by (simp add: raise_actions_def)

lemma raised_raise_actions [simp]: "raised (raise_actions es) = es"
  by (induction es) (auto simp: raise_actions_def)

lemma irqs_raise_actions [simp]: "irqs (raise_actions es) = []"
  by (induction es) (auto simp: raise_actions_def)

lemma raises_iff:
  "raises st st' ks \<longleftrightarrow>
     position_state st' = position_state st \<and> reads st' = reads st
     \<and> int_mode st' = int_mode st \<and> out_of_bounds st' = out_of_bounds st
     \<and> (\<exists>es. trace st' = trace st @ raise_actions es \<and> map key es = ks)"
proof
  assume r: "raises st st' ks"
  let ?new = "drop (length (trace st)) (trace st')"
  have "trace st' = take (length (trace st)) (trace st') @ ?new"
    by simp
  also have "\<dots> = trace st @ raise_actions (raised ?new)"
    using r by (simp add: raises_def)
  finally have "trace st' = trace st @ raise_actions (raised ?new)" .
  moreover have "map key (raised ?new) = ks"
    using r by (simp add: raises_def)
  ultimately have "\<exists>es. trace st' = trace st @ raise_actions es \<and> map key es = ks"
    by blast
  with r show "position_state st' = position_state st \<and> reads st' = reads st
     \<and> int_mode st' = int_mode st \<and> out_of_bounds st' = out_of_bounds st
     \<and> (\<exists>es. trace st' = trace st @ raise_actions es \<and> map key es = ks)"
    by (simp add: raises_def)
next
  assume "position_state st' = position_state st \<and> reads st' = reads st
     \<and> int_mode st' = int_mode st \<and> out_of_bounds st' = out_of_bounds st
     \<and> (\<exists>es. trace st' = trace st @ raise_actions es \<and> map key es = ks)"
  then show "raises st st' ks"
    by (auto simp: raises_def)
qed

lemma quiet_iff:
  "quiet st st' \<longleftrightarrow>
     int_mode st' = int_mode st \<and> (\<exists>as. trace st' = trace st @ as \<and> irqs as = [])"
proof
  assume q: "quiet st st'"
  let ?new = "drop (length (trace st)) (trace st')"
  have "take (length (trace st)) (trace st') = trace st"
    using q by (simp add: quiet_def)
  then have "trace st' = trace st @ ?new"
    by (metis append_take_drop_id)
  moreover have "irqs ?new = []"
    using q by (simp add: quiet_def)
  ultimately have "\<exists>as. trace st' = trace st @ as \<and> irqs as = []"
    by blast
  with q show "int_mode st' = int_mode st \<and> (\<exists>as. trace st' = trace st @ as \<and> irqs as = [])"
    by (simp add: quiet_def)
next
  assume "int_mode st' = int_mode st \<and> (\<exists>as. trace st' = trace st @ as \<and> irqs as = [])"
  then show "quiet st st'"
    by (auto simp: quiet_def)
qed

lemma raises_refl: "raises st st []"
  by (simp add: raises_def raise_actions_def)

lemma raises_trans: "raises st st' ks \<Longrightarrow> raises st' st'' ks' \<Longrightarrow> raises st st'' (ks @ ks')"
  unfolding raises_iff
  apply clarsimp
  subgoal for es es'
    by (rule exI [of _ "es @ es'"]) simp
  done

lemma quiet_refl: "quiet st st"
  by (simp add: quiet_def)

lemma quiet_trans: "quiet st st' \<Longrightarrow> quiet st' st'' \<Longrightarrow> quiet st st''"
  unfolding quiet_iff by clarsimp

lemma raises_quiet: "raises st st' ks \<Longrightarrow> quiet st st'"
  unfolding raises_iff quiet_iff by auto

subsection \<open>The event loops\<close>

lemma raises_raise_bit:
  "raises st (raise_bit pf c i j st)
     (if c ! i AND BIT j \<noteq> 0 then [((i * 8) + j, position_state st ! i AND BIT j \<noteq> 0)] else [])"
proof (cases "c ! i AND BIT j \<noteq> 0")
  case True
  then show ?thesis
    unfolding raises_iff raise_bit_def emit_def
    apply (simp add: Let_def)
    apply (rule exI [of _ "[\<lparr>position = (i * 8) + j,
          state = (position_state st ! i AND BIT j \<noteq> 0),
          timestamp = k_uptime_get pf (length (trace st))\<rparr>]"])
    apply (simp add: key_def raise_actions_def)
    done
next
  case False
  then show ?thesis by (simp add: raise_bit_def raises_refl)
qed

lemma bit_keys_Cons:
  "bit_keys c ps i (j # js) =
     (if c ! i AND BIT j \<noteq> 0 then [((i * 8) + j, ps ! i AND BIT j \<noteq> 0)] else [])
     @ bit_keys c ps i js"
  by (simp add: bit_keys_def)

lemma raises_inner:
  "position_state st = ps \<Longrightarrow> raises st (fold (raise_bit pf c i) js st) (bit_keys c ps i js)"
proof (induction js arbitrary: st)
  case Nil
  show ?case by (simp add: raises_refl bit_keys_def)
next
  case (Cons j js)
  have a: "raises st (raise_bit pf c i j st)
     (if c ! i AND BIT j \<noteq> 0 then [((i * 8) + j, ps ! i AND BIT j \<noteq> 0)] else [])"
    unfolding Cons.prems [symmetric] by (rule raises_raise_bit)
  then have ps: "position_state (raise_bit pf c i j st) = ps"
    using Cons.prems by (simp add: raises_def)
  have "raises st (fold (raise_bit pf c i) js (raise_bit pf c i j st))
          ((if c ! i AND BIT j \<noteq> 0 then [((i * 8) + j, ps ! i AND BIT j \<noteq> 0)] else [])
           @ bit_keys c ps i js)"
    by (rule raises_trans [OF a Cons.IH [OF ps]])
  then show ?case by (simp only: bit_keys_Cons fold_simps)
qed

lemma raises_outer:
  "position_state st = ps \<Longrightarrow>
   raises st (fold (\<lambda>i. fold (raise_bit pf c i) js) is st)
     (concat (map (\<lambda>i. bit_keys c ps i js) is))"
proof (induction "is" arbitrary: st)
  case Nil
  show ?case by (simp add: raises_refl)
next
  case (Cons i "is")
  let ?st1 = "fold (raise_bit pf c i) js st"
  have a: "raises st ?st1 (bit_keys c ps i js)"
    by (rule raises_inner [OF Cons.prems])
  then have ps: "position_state ?st1 = ps"
    using Cons.prems by (simp add: raises_def)
  have "raises st (fold (\<lambda>i. fold (raise_bit pf c i) js) is ?st1)
          (bit_keys c ps i js @ concat (map (\<lambda>i. bit_keys c ps i js) is))"
    by (rule raises_trans [OF a Cons.IH [OF ps]])
  then show ?case by simp
qed

subsection \<open>The diff loop\<close>

lemma and_BIT_neq_0: "w AND BIT j \<noteq> 0 \<longleftrightarrow> bit w j"
proof -
  have "BIT j = (2::u8) ^ j" by (simp add: BIT_def)
  then show ?thesis by (simp add: and_exp_eq_0_iff_not_bit)
qed

lemma diff_loop:
  "n \<le> length c \<Longrightarrow> n \<le> length ps \<Longrightarrow> n \<le> length data \<Longrightarrow>
   fold (diff_byte data) [0..<n] (c, ps)
     = (map (\<lambda>i. (data ! i) XOR (ps ! i)) [0..<n] @ drop n c, take n data @ drop n ps)"
proof (induction n)
  case 0
  show ?case by simp
next
  case (Suc n)
  have IH: "fold (diff_byte data) [0..<n] (c, ps)
     = (map (\<lambda>i. (data ! i) XOR (ps ! i)) [0..<n] @ drop n c, take n data @ drop n ps)"
    using Suc by simp
  have n: "n < length c" "n < length ps" "n < length data" using Suc.prems by simp_all
  have 1: "(map (\<lambda>i. (data ! i) XOR (ps ! i)) [0..<n] @ drop n c)[n := v]
           = map (\<lambda>i. (data ! i) XOR (ps ! i)) [0..<n] @ v # drop (Suc n) c" for v
    using n(1) by (simp add: list_update_append Cons_nth_drop_Suc [symmetric])
  have 2: "(take n data @ drop n ps)[n := data ! n] = take (Suc n) data @ drop (Suc n) ps"
    using n(2,3)
    by (simp add: list_update_append take_Suc_conv_app_nth Cons_nth_drop_Suc [symmetric])
  have 3: "(take n data @ drop n ps) ! n = ps ! n"
    using n(2,3) by (simp add: nth_append)
  have "fold (diff_byte data) [0..<Suc n] (c, ps)
          = diff_byte data n (fold (diff_byte data) [0..<n] (c, ps))"
    by simp
  also have "\<dots> = diff_byte data n
      (map (\<lambda>i. (data ! i) XOR (ps ! i)) [0..<n] @ drop n c, take n data @ drop n ps)"
    by (simp only: IH)
  also have "\<dots> = (map (\<lambda>i. (data ! i) XOR (ps ! i)) [0..<Suc n] @ drop (Suc n) c,
                      take (Suc n) data @ drop (Suc n) ps)"
    by (simp add: diff_byte_def 1 2 3)
  finally show ?case .
qed

lemma diff_positions_eq:
  assumes "length ps = POSITION_STATE_DATA_LEN" "length data = POSITION_STATE_DATA_LEN"
  shows "diff_positions data ps
           = (map (\<lambda>i. (data ! i) XOR (ps ! i)) [0..<POSITION_STATE_DATA_LEN], data)"
  using diff_loop [of POSITION_STATE_DATA_LEN "replicate POSITION_STATE_DATA_LEN 0" ps data] assms
  by (simp add: diff_positions_def)

subsection \<open>From the nested loops to the 128 positions\<close>

lemma upt_8_block: "[8 * n..<8 * Suc n] = map (\<lambda>j. (n * 8) + j) [0..<8]"
proof -
  have "map (\<lambda>j. j + n * 8) [0..<8] = [n * 8..<8 + n * 8]"
    by (rule map_add_upt)
  then show ?thesis by (simp add: add.commute mult.commute del: upt_rec_numeral)
qed

lemma concat_map_if:
  "concat (map (\<lambda>j. if Q j then [g j] else []) xs) = map g (filter Q xs)"
  by (induction xs) simp_all

lemma flatten_loops:
  "concat (map (\<lambda>i. concat (map (\<lambda>j. if P i j then [f i j] else []) [0..<8])) [0..<n])
     = map (\<lambda>q. f (q div 8) (q mod 8)) (filter (\<lambda>q. P (q div 8) (q mod 8)) [0..<8 * n])"
proof (induction n)
  case 0
  show ?case by simp
next
  case (Suc n)
  have split: "[0..<8 * Suc n] = [0..<8 * n] @ [8 * n..<8 * Suc n]"
    using upt_add_eq_append [of 0 "8 * n" 8] by (simp add: add.commute)
  have block: "map (\<lambda>q. f (q div 8) (q mod 8))
                 (filter (\<lambda>q. P (q div 8) (q mod 8)) [8 * n..<8 * Suc n])
                 = concat (map (\<lambda>j. if P n j then [f n j] else []) [0..<8])"
  proof -
    have "filter (\<lambda>x. P (n + x div 8) (x mod 8)) [0..<8] = filter (P n) [0..<8]"
      by (rule filter_cong) simp_all
    moreover have "map (\<lambda>x. f (n + x div 8) (x mod 8)) (filter (P n) [0..<8])
                     = map (f n) (filter (P n) [0..<8])"
      by (rule map_cong) simp_all
    ultimately show ?thesis
      unfolding upt_8_block
      by (simp del: upt_rec_numeral add: filter_map comp_def concat_map_if)
  qed
  show ?case
    by (simp only: upt_Suc_append [OF le0] map_append concat_append concat.simps append_Nil2
        list.map Suc.IH split filter_append block)
qed

lemma changed_bit:
  assumes "q < 8 * n"
  shows "map (\<lambda>i. (data ! i) XOR (ps ! i)) [0..<n] ! (q div 8) AND BIT (q mod 8) \<noteq> 0
           \<longleftrightarrow> bit_at ps q \<noteq> bit_at data q"
proof -
  have "q div 8 < n" using assms by auto
  then show ?thesis
    by (auto simp add: and_BIT_neq_0 bit_at_def bit_xor_iff simp del: upt_rec_numeral)
qed

lemma diff_keys:
  "concat (map (\<lambda>i. bit_keys (map (\<lambda>i. (data ! i) XOR (ps ! i)) [0..<n]) data i [0..<8]) [0..<n])
     = map (\<lambda>q. (q, bit_at data q)) (filter (\<lambda>q. bit_at ps q \<noteq> bit_at data q) [0..<8 * n])"
proof -
  let ?c = "map (\<lambda>i. (data ! i) XOR (ps ! i)) [0..<n]"
  have "concat (map (\<lambda>i. bit_keys ?c data i [0..<8]) [0..<n])
      = map (\<lambda>q. ((q div 8 * 8) + q mod 8, data ! (q div 8) AND BIT (q mod 8) \<noteq> 0))
          (filter (\<lambda>q. ?c ! (q div 8) AND BIT (q mod 8) \<noteq> 0) [0..<8 * n])"
    unfolding bit_keys_def by (rule flatten_loops)
  also have "filter (\<lambda>q. ?c ! (q div 8) AND BIT (q mod 8) \<noteq> 0) [0..<8 * n]
      = filter (\<lambda>q. bit_at ps q \<noteq> bit_at data q) [0..<8 * n]"
  proof (rule filter_cong [OF refl])
    fix q assume "q \<in> set [0..<8 * n]"
    then have "q < 8 * n" by simp
    then show "(?c ! (q div 8) AND BIT (q mod 8) \<noteq> 0) = (bit_at ps q \<noteq> bit_at data q)"
      by (rule changed_bit)
  qed
  also have "(\<lambda>q. ((q div 8 * 8) + q mod 8, data ! (q div 8) AND BIT (q mod 8) \<noteq> 0))
      = (\<lambda>q. (q, bit_at data q))"
    by (simp add: and_BIT_neq_0 bit_at_def)
  finally show ?thesis .
qed

lemma bitmap_eq_iff:
  assumes "length old = n" "length new = n"
  shows "old = new \<longleftrightarrow> (\<forall>q<8 * n. bit_at old q = bit_at new q)"
proof
  assume "old = new" then show "\<forall>q<8 * n. bit_at old q = bit_at new q" by simp
next
  assume h: "\<forall>q<8 * n. bit_at old q = bit_at new q"
  show "old = new"
  proof (rule nth_equalityI)
    show "length old = length new" using assms by simp
  next
    fix i assume "i < length old"
    then have i: "i < n" using assms by simp
    show "old ! i = new ! i"
    proof (rule bit_eqI)
      fix k assume "possible_bit TYPE(u8) k"
      then have k: "k < 8" by (simp add: possible_bit_word)
      have "(i * 8) + k < 8 * n" using i k by simp
      from h [rule_format, OF this] k show "bit (old ! i) k = bit (new ! i) k"
        by (simp add: bit_at_def)
    qed
  qed
qed

lemma filter_upt_Nil_iff: "filter P [0..<n] = [] \<longleftrightarrow> (\<forall>q<n. \<not> P q)"
  by (auto simp: filter_empty_conv)

subsection \<open>The diff and its events\<close>

lemma cb_diff_raises:
  assumes "length (position_state st) = POSITION_STATE_DATA_LEN"
      and "length data = POSITION_STATE_DATA_LEN"
  shows "raises (st\<lparr>position_state := data\<rparr>) (cb_diff pf data st)
     (map (\<lambda>q. (q, bit_at data q))
        (filter (\<lambda>q. bit_at (position_state st) q \<noteq> bit_at data q)
           [0..<8 * POSITION_STATE_DATA_LEN]))"
proof -
  let ?c = "map (\<lambda>i. (data ! i) XOR (position_state st ! i)) [0..<POSITION_STATE_DATA_LEN]"
  have d: "diff_positions data (position_state st) = (?c, data)"
    by (rule diff_positions_eq [OF assms])
  have cb: "cb_diff pf data st = raise_events pf ?c (st\<lparr>position_state := data\<rparr>)"
    by (simp add: cb_diff_def d)
  have "raises (st\<lparr>position_state := data\<rparr>)
          (raise_events pf ?c (st\<lparr>position_state := data\<rparr>))
          (concat (map (\<lambda>i. bit_keys ?c data i [0..<8]) [0..<POSITION_STATE_DATA_LEN]))"
    unfolding raise_events_def by (rule raises_outer) simp
  then show ?thesis
    by (simp only: cb diff_keys)
qed

lemma map_key_positions: "map position es = map fst (map key es)"
  by (simp add: key_def comp_def)

lemma map_key_states: "map state es = map snd (map key es)"
  by (simp add: key_def comp_def)

lemma diff_step_facts:
  assumes "length (position_state st) = POSITION_STATE_DATA_LEN"
      and "length new = POSITION_STATE_DATA_LEN"
  shows "\<forall>q<128. bit_at (fst (diff_positions new (position_state st))) q
                    \<longleftrightarrow> bit_at (position_state st) q \<noteq> bit_at new q"
    and "position_state (cb_diff pf new st) = new"
    and "map position (raised (drop (length (trace st)) (trace (cb_diff pf new st))))
           = filter (\<lambda>q. bit_at (position_state st) q \<noteq> bit_at new q) [0..<128]"
    and "map state (raised (drop (length (trace st)) (trace (cb_diff pf new st))))
           = map (bit_at new)
               (filter (\<lambda>q. bit_at (position_state st) q \<noteq> bit_at new q) [0..<128])"
    and "raised (drop (length (trace st)) (trace (cb_diff pf new st))) = []
            \<longleftrightarrow> position_state st = new"
    and "take (length (trace st)) (trace (cb_diff pf new st)) = trace st"
proof -
  let ?old = "position_state st"
  let ?evs = "raised (drop (length (trace st)) (trace (cb_diff pf new st)))"
  let ?D = "filter (\<lambda>q. bit_at ?old q \<noteq> bit_at new q) [0..<128]"
  have n: "8 * POSITION_STATE_DATA_LEN = 128" by (simp add: POSITION_STATE_DATA_LEN_def)
  have R: "raises (st\<lparr>position_state := new\<rparr>) (cb_diff pf new st)
             (map (\<lambda>q. (q, bit_at new q)) ?D)"
    using cb_diff_raises [OF assms, of pf] by (simp only: n)
  have keys: "map key ?evs = map (\<lambda>q. (q, bit_at new q)) ?D"
    using R by (simp add: raises_def)
  show "\<forall>q<128. bit_at (fst (diff_positions new ?old)) q \<longleftrightarrow> bit_at ?old q \<noteq> bit_at new q"
  proof (intro allI impI)
    fix q :: nat assume q: "q < 128"
    then have "q < 8 * POSITION_STATE_DATA_LEN" by (simp only: n)
    from changed_bit [OF this, of new ?old]
    show "bit_at (fst (diff_positions new ?old)) q \<longleftrightarrow> bit_at ?old q \<noteq> bit_at new q"
      by (simp only: diff_positions_eq [OF assms] fst_conv and_BIT_neq_0 bit_at_def)
  qed
  show "position_state (cb_diff pf new st) = new"
    using R by (simp add: raises_def)
  show 3: "map position ?evs = ?D"
    by (simp only: map_key_positions keys) (simp add: comp_def)
  show "map state ?evs = map (bit_at new) ?D"
    by (simp only: map_key_states keys) (simp add: comp_def)
  have "?evs = [] \<longleftrightarrow> map position ?evs = []" by simp
  also have "\<dots> \<longleftrightarrow> (\<forall>q<128. bit_at ?old q = bit_at new q)"
    by (simp only: 3 filter_upt_Nil_iff) simp
  also have "\<dots> \<longleftrightarrow> ?old = new"
    using bitmap_eq_iff [OF assms, symmetric] by (simp only: n)
  finally show "?evs = [] \<longleftrightarrow> ?old = new" .
  show "take (length (trace st)) (trace (cb_diff pf new st)) = trace st"
    using R by (simp add: raises_def)
qed

text \<open>
  Claim C2: for 16-byte bitmaps \<open>old\<close> (the stored \<^verbatim>\<open>position_state\<close>) and \<open>new\<close>
  (\<^verbatim>\<open>data\<close>), the diff step of \<^verbatim>\<open>onewire_cb\<close> marks in \<^verbatim>\<open>changed_positions\<close> exactly
  the positions whose bit differs, stores \<open>new\<close>, and raises one event for each
  differing position, in ascending order of position, carrying the bit of \<open>new\<close>;
  no event is raised exactly when \<open>old = new\<close>.
\<close>

theorem diff_events:
  assumes "length (position_state st) = POSITION_STATE_DATA_LEN"
      and "length new = POSITION_STATE_DATA_LEN"
  shows "(\<forall>q<128. bit_at (fst (diff_positions new (position_state st))) q
                    \<longleftrightarrow> bit_at (position_state st) q \<noteq> bit_at new q)
       \<and> position_state (cb_diff pf new st) = new
       \<and> map position (raised (drop (length (trace st)) (trace (cb_diff pf new st))))
           = filter (\<lambda>q. bit_at (position_state st) q \<noteq> bit_at new q) [0..<128]
       \<and> map state (raised (drop (length (trace st)) (trace (cb_diff pf new st))))
           = map (bit_at new)
               (filter (\<lambda>q. bit_at (position_state st) q \<noteq> bit_at new q) [0..<128])
       \<and> (raised (drop (length (trace st)) (trace (cb_diff pf new st))) = []
            \<longleftrightarrow> position_state st = new)
       \<and> take (length (trace st)) (trace (cb_diff pf new st)) = trace st"
  by (intro conjI diff_step_facts [OF assms])

lemma eval_bits_3_10:
  "filter (\<lambda>q. bit_at (replicate 16 0) q \<noteq> bit_at (8 # 4 # replicate 14 0) q) [0..<128]
     = [3, 10]"
  by code_simp

text \<open>The scenario of the specification: all bits clear before, bits 3 and 10 set in
  the received bitmap.\<close>

theorem diff_events_witness:
  "length (position_state boot) = POSITION_STATE_DATA_LEN
   \<and> length (8 # 4 # replicate 14 (0::u8)) = POSITION_STATE_DATA_LEN
   \<and> map position (raised (trace (cb_diff (line_of []) (8 # 4 # replicate 14 0) boot))) = [3, 10]
   \<and> map state (raised (trace (cb_diff (line_of []) (8 # 4 # replicate 14 0) boot))) = [True, True]
   \<and> position_state (cb_diff (line_of []) (8 # 4 # replicate 14 0) boot) = 8 # 4 # replicate 14 0"
proof -
  let ?new = "8 # 4 # replicate 14 (0::u8)"
  have h1: "length (position_state boot) = POSITION_STATE_DATA_LEN"
    by (simp add: boot_def)
  have h2: "length ?new = POSITION_STATE_DATA_LEN"
    by (simp add: POSITION_STATE_DATA_LEN_def)
  have b: "position_state boot = replicate 16 0" "trace boot = []"
    by (simp_all add: boot_def POSITION_STATE_DATA_LEN_def)
  have s: "map (bit_at ?new) [3, 10] = [True, True]"
    by (simp add: bit_at_def)
  note T = diff_events [OF h1 h2, of "line_of []"]
  have 1: "map position (raised (trace (cb_diff (line_of []) ?new boot))) = [3, 10]"
    using T by (simp only: b eval_bits_3_10 list.size drop_0)
  have 2: "map state (raised (trace (cb_diff (line_of []) ?new boot))) = [True, True]"
    using T by (simp only: b eval_bits_3_10 list.size drop_0 s)
  have 3: "position_state (cb_diff (line_of []) ?new boot) = ?new"
    using T by - (elim conjE, assumption)
  from h1 h2 1 2 3 show ?thesis by (intro conjI)
qed

subsection \<open>Reading bytes\<close>

text \<open>What one call of \<^verbatim>\<open>onewire_read_byte\<close> does, written out: its loop runs once.\<close>

lemma onewire_read_byte_eq:
  "onewire_read_byte pf st =
     (let v = gpio_pin_get pf (reads st) in
      (if 0 \<le> v then word_of_int v else 0,
       st\<lparr>reads := Suc (reads st),
          trace := trace st @ (if 0 \<le> v then [Pin_get v, Busy_wait ONE_PERIOD_US]
                               else [Pin_get v, Log_pin_read_error v, Busy_wait ONE_PERIOD_US])\<rparr>))"
  by (simp add: onewire_read_byte_def read_bits_def sizeof_byte_def read_bit_def Let_def emit_def
      k_busy_wait_def)

lemma byte_at_eq:
  "byte_at pf k = (if 0 \<le> gpio_pin_get pf k then word_of_int (gpio_pin_get pf k) else 0)"
  by (simp add: byte_at_def onewire_read_byte_eq Let_def)

lemma fst_onewire_read_byte: "fst (onewire_read_byte pf st) = byte_at pf (reads st)"
  by (simp add: byte_at_def onewire_read_byte_eq Let_def)

lemma snd_onewire_read_byte:
  "reads (snd (onewire_read_byte pf st)) = reads st + sizeof_byte"
  "position_state (snd (onewire_read_byte pf st)) = position_state st"
  by (simp_all add: onewire_read_byte_eq Let_def sizeof_byte_def)

lemma quiet_onewire_read_byte: "quiet st (snd (onewire_read_byte pf st))"
  by (simp add: onewire_read_byte_eq Let_def quiet_def)

lemma receive_byte_eq:
  "receive_byte pf i st =
     (snd (onewire_read_byte pf st))\<lparr>position_state :=
        (position_state st)[i := byte_at pf (reads st)]\<rparr>"
  by (simp add: receive_byte_def split_beta fst_onewire_read_byte snd_onewire_read_byte)

lemma quiet_receive_byte: "quiet st (receive_byte pf i st)"
  using quiet_onewire_read_byte [of st pf] by (simp add: receive_byte_eq quiet_def)


lemma quiet_receive_loop: "quiet st (fold (receive_byte pf) is st)"
proof (induction "is" arbitrary: st)
  case Nil
  show ?case by (simp add: quiet_refl)
next
  case (Cons i "is")
  show ?case
    using quiet_trans [OF quiet_receive_byte Cons.IH] by simp
qed

subsection \<open>The callback\<close>

lemma cb_delayed_simps:
  "trace (cb_delayed st) = trace st @ [Irq_configure GPIO_INT_DISABLE, Busy_wait sample_offset]"
  "reads (cb_delayed st) = reads st"
  "position_state (cb_delayed st) = position_state st"
  "int_mode (cb_delayed st) = GPIO_INT_DISABLE"
  by (simp_all add: cb_delayed_def k_busy_wait_def gpio_pin_interrupt_configure_def emit_def
      sample_offset_def)

lemma cb_receive_eq:
  "cb_receive pf st =
     (let len = byte_at pf (reads st); st3 = snd (onewire_read_byte pf (cb_delayed st))
      in if unat len < POSITION_STATE_DATA_LEN
         then (len, fold (receive_byte pf) [0..<unat len] st3)
         else (len, emit (Log_length_too_long len) st3))"
  using fst_onewire_read_byte [of pf "cb_delayed st"]
  by (simp add: cb_receive_def Let_def split_beta cb_delayed_def [symmetric] cb_delayed_simps)

lemma quiet_emit_log: "quiet st (emit (Log_length_too_long len) st)"
  by (simp add: quiet_def emit_def)

lemma quiet_cb_receive:
  "quiet (snd (onewire_read_byte pf (cb_delayed st))) (snd (cb_receive pf st))"
  by (simp add: cb_receive_eq Let_def quiet_receive_loop quiet_emit_log)

lemma raises_cb_diff:
  "\<exists>ps ks. raises (st\<lparr>position_state := ps\<rparr>) (cb_diff pf data st) ks"
proof -
  obtain c ps where d: "diff_positions data (position_state st) = (c, ps)"
    by (cases "diff_positions data (position_state st)")
  have "raises (st\<lparr>position_state := ps\<rparr>) (raise_events pf c (st\<lparr>position_state := ps\<rparr>))
          (concat (map (\<lambda>i. bit_keys c ps i [0..<8]) [0..<POSITION_STATE_DATA_LEN]))"
    unfolding raise_events_def by (rule raises_outer) simp
  then have "raises (st\<lparr>position_state := ps\<rparr>) (cb_diff pf data st)
          (concat (map (\<lambda>i. bit_keys c ps i [0..<8]) [0..<POSITION_STATE_DATA_LEN]))"
    by (simp add: cb_diff_def d)
  then show ?thesis by blast
qed

lemma quiet_cb_diff: "quiet st (cb_diff pf data st)"
proof -
  from raises_cb_diff [of st pf data]
  obtain ps ks where "raises (st\<lparr>position_state := ps\<rparr>) (cb_diff pf data st) ks"
    by blast
  then have "quiet (st\<lparr>position_state := ps\<rparr>) (cb_diff pf data st)"
    by (rule raises_quiet)
  then show ?thesis by (simp add: quiet_def)
qed



lemma quiet_cb_body: "quiet (cb_delayed st) (cb_diff pf data (snd (cb_receive pf st)))"
  by (rule quiet_trans [OF quiet_trans [OF quiet_onewire_read_byte quiet_cb_receive] quiet_cb_diff])

text \<open>
  Claim C9: every run of \<^verbatim>\<open>onewire_cb\<close>, whatever the line and the data, first
  disables the interrupt of the pin, configures it once more as its last step, to
  trigger on the edge to inactive, configures it at no other point, and leaves it
  enabled. This covers the branch that reads a payload and the branch that logs that
  the length is too long.
\<close>

theorem interrupt_masked_during_callback:
  "take (Suc (length (trace st))) (trace (onewire_cb pf data st))
      = trace st @ [Irq_configure GPIO_INT_DISABLE]
   \<and> last (trace (onewire_cb pf data st)) = Irq_configure GPIO_INT_EDGE_TO_INACTIVE
   \<and> irqs (drop (length (trace st)) (trace (onewire_cb pf data st)))
      = [GPIO_INT_DISABLE, GPIO_INT_EDGE_TO_INACTIVE]
   \<and> int_mode (onewire_cb pf data st) = GPIO_INT_EDGE_TO_INACTIVE"
proof -
  let ?B = "cb_diff pf data (snd (cb_receive pf st))"
  from quiet_cb_body [of st pf data]
  obtain as where as: "trace ?B = trace (cb_delayed st) @ as" "irqs as = []"
    by (auto simp: quiet_iff)
  have t: "trace (onewire_cb pf data st)
     = trace st @ Irq_configure GPIO_INT_DISABLE # Busy_wait sample_offset # as
         @ [Irq_configure GPIO_INT_EDGE_TO_INACTIVE]"
    by (simp add: onewire_cb_def gpio_pin_interrupt_configure_def emit_def as cb_delayed_simps)
  have m: "int_mode (onewire_cb pf data st) = GPIO_INT_EDGE_TO_INACTIVE"
    by (simp add: onewire_cb_def gpio_pin_interrupt_configure_def emit_def)
  show ?thesis
    by (simp add: t m as(2))
qed






text \<open>
  The branch of \<^verbatim>\<open>onewire_cb\<close> for a length that is too long. \<^verbatim>\<open>data_length\<close> is one
  call of \<^verbatim>\<open>onewire_read_byte\<close>, hence one sample. On a line that answers 0, 1 or a
  negative error number, which is all \<^verbatim>\<open>gpio_pin_get\<close> returns, the length is 0 or 1
  and the branch is never taken.
\<close>

lemma data_length_at_most_1:
  assumes "\<forall>n. gpio_pin_get pf n \<le> 1"
  shows "unat (fst (cb_receive pf st)) \<le> 1"
proof -
  let ?v = "gpio_pin_get pf (reads st)"
  have "fst (cb_receive pf st) = byte_at pf (reads st)"
    by (simp add: cb_receive_eq Let_def)
  moreover have "?v < 0 \<or> ?v = 0 \<or> ?v = 1"
    using assms [rule_format, of "reads st"] by arith
  ultimately show ?thesis
    by (auto simp add: byte_at_eq)
qed

section \<open>Sending a byte and reading it back\<close>

text \<open>Fed with the levels \<^verbatim>\<open>onewire_send_byte\<close> drives, \<^verbatim>\<open>onewire_read_byte\<close> returns the
  lowest bit of the byte that was sent: both loops run \<^verbatim>\<open>sizeof(byte)\<close> times, once.\<close>

lemma round_trip_keeps_low_bit:
  "fst (onewire_read_byte (line_of (onewire_send_byte b)) boot) = b AND 1"
  by (simp add: onewire_read_byte_eq Let_def line_of_def onewire_send_byte_def sizeof_byte_def
      boot_def and_one_eq)

text \<open>
  The two loops agree on the order of the bits: were they run 8 times, the byte read
  back would be the byte sent. The bound is the only thing that stands in the way.
\<close>

lemma upt_Suc_shift: "[0..<Suc n] = 0 # map Suc [0..<n]"
  by (simp add: upt_conv_Cons map_Suc_upt del: upt_Suc)

lemma levels_send_bits:
  "levels (send_bits n b) = map (\<lambda>i. if bit b i then 1 else 0) [0..<n]"
proof (induction n arbitrary: b)
  case 0
  show ?case by simp
next
  case (Suc n)
  have hd: "(b AND 1 = 0) \<longleftrightarrow> \<not> bit b 0"
    by (simp add: and_one_eq bit_0 even_iff_mod_2_eq_zero)
  have tl: "map (\<lambda>i. if bit (drop_bit 1 b) i then 1 else (0::int)) [0..<n]
              = map (\<lambda>i. if bit b i then 1 else 0) (map Suc [0..<n])"
    by (simp add: bit_drop_bit_eq comp_def)
  show ?case
    by (simp only: send_bits.simps levels.simps Suc.IH tl upt_Suc_shift list.map hd) simp
qed

lemma read_loop_bits:
  assumes "\<forall>k<n. gpio_pin_get pf (reads st + k) = 0 \<or> gpio_pin_get pf (reads st + k) = 1"
  shows "reads (snd (fold (read_bit pf) [0..<n] (0, st))) = reads st + n
       \<and> (\<forall>k. bit (fst (fold (read_bit pf) [0..<n] (0, st))) k
               \<longleftrightarrow> k < n \<and> k < 8 \<and> gpio_pin_get pf (reads st + k) = 1)"
  using assms
proof (induction n)
  case 0
  show ?case by simp
next
  case (Suc n)
  let ?r = "fold (read_bit pf) [0..<n] (0, st)"
  have IH: "reads (snd ?r) = reads st + n"
    "\<And>k. bit (fst ?r) k \<longleftrightarrow> k < n \<and> k < 8 \<and> gpio_pin_get pf (reads st + k) = 1"
    using Suc by simp_all
  have step: "fold (read_bit pf) [0..<Suc n] (0, st) = read_bit pf n ?r" by simp
  let ?v = "gpio_pin_get pf (reads st + n)"
  have v: "?v = 0 \<or> ?v = 1" using Suc.prems by simp
  have rb: "read_bit pf n ?r
     = (fst ?r OR word_of_int (push_bit n ?v),
        k_busy_wait ONE_PERIOD_US (emit (Pin_get ?v) ((snd ?r)\<lparr>reads := Suc (reads (snd ?r))\<rparr>)))"
    using v by (auto simp add: read_bit_def split_beta Let_def IH(1))
  have w: "bit (word_of_int (push_bit n ?v) :: u8) k \<longleftrightarrow> k = n \<and> k < 8 \<and> ?v = 1" for k
    using v by (auto simp add: bit_simps)
  show ?case
    unfolding step rb
    by (auto simp add: IH k_busy_wait_def emit_def bit_or_iff w less_Suc_eq)
qed

lemma eight_bits_round_trip:
  "fst (read_bits (line_of (send_bits 8 b)) 8 boot) = b"
proof (rule bit_eqI)
  fix k assume "possible_bit TYPE(u8) k"
  let ?pf = "line_of (send_bits 8 b)"
  have g: "gpio_pin_get ?pf k = (if k < 8 then (if bit b k then 1 else 0) else 1)" for k
    by (simp add: line_of_def levels_send_bits del: upt_rec_numeral)
  have "\<forall>k<8. gpio_pin_get ?pf (reads boot + k) = 0 \<or> gpio_pin_get ?pf (reads boot + k) = 1"
    by (simp add: g)
  from read_loop_bits [OF this, THEN conjunct2, rule_format, of k]
  show "bit (fst (read_bits ?pf 8 boot)) k = bit b k"
    by (auto simp add: read_bits_def g boot_def dest: bit_imp_le_length)
qed

text \<open>
  Claim C1 says that reading back the bits sent for a byte returns the byte. For the
  byte 2 the transmitter drives the single level 0 and the receiver returns 0.
\<close>

theorem byte_2_reads_back_0:
  "levels (onewire_send_byte 2) = [0]
   \<and> fst (onewire_read_byte (line_of (onewire_send_byte 2)) boot) = 0"
  by (simp add: onewire_read_byte_eq Let_def line_of_def onewire_send_byte_def sizeof_byte_def
      boot_def)

end
